theory Spec2Isabelle
  imports Complex_Main "HOL-Library.Multiset"
begin

section \<open>Python strings\<close>

text \<open>
  The collaborator endpoint (\<^verbatim>\<open>collaborators-connector/function_app.py\<close>) works on Python
  \<^verbatim>\<open>str\<close> values. A string is modelled as a \<open>char list\<close> whose characters are read as
  code points below 256; \<^verbatim>\<open>str.lower\<close>, \<^verbatim>\<open>str.isspace\<close> and the regular expression class
  \<^verbatim>\<open>\w\<close> are written out for that range.
\<close>

definition lower_char :: "char \<Rightarrow> char" where
  "lower_char c =
     (let n = (of_char c :: nat)
      in if (65 \<le> n \<and> n \<le> 90) \<or> (192 \<le> n \<and> n \<le> 222 \<and> n \<noteq> 215)
         then char_of (n + 32) else c)"

definition py_lower :: "string \<Rightarrow> string" where
  "py_lower s = map lower_char s"

definition is_space :: "char \<Rightarrow> bool" where
  "is_space c =
     (let n = (of_char c :: nat)
      in (9 \<le> n \<and> n \<le> 13) \<or> (28 \<le> n \<and> n \<le> 32) \<or> n = 133 \<or> n = 160)"

definition is_word :: "char \<Rightarrow> bool" where
  "is_word c =
     (let n = (of_char c :: nat)
      in (48 \<le> n \<and> n \<le> 57) \<or> (65 \<le> n \<and> n \<le> 90) \<or> n = 95 \<or> (97 \<le> n \<and> n \<le> 122)
         \<or> n = 170 \<or> n = 178 \<or> n = 179 \<or> n = 181 \<or> n = 185 \<or> n = 186
         \<or> (188 \<le> n \<and> n \<le> 190) \<or> (192 \<le> n \<and> n \<le> 214) \<or> (216 \<le> n \<and> n \<le> 246)
         \<or> 248 \<le> n)"

text \<open>\<^verbatim>\<open>t.startswith(p)\<close>.\<close>

fun starts_with :: "string \<Rightarrow> string \<Rightarrow> bool" where
  "starts_with [] t = True"
| "starts_with (p # ps) [] = False"
| "starts_with (p # ps) (c # cs) = (p = c \<and> starts_with ps cs)"

text \<open>\<^verbatim>\<open>sub in t\<close>: \<open>sub\<close> occurs in \<open>t\<close> as a contiguous substring.\<close>

fun py_contains :: "string \<Rightarrow> string \<Rightarrow> bool" where
  "py_contains sub [] = (sub = [])"
| "py_contains sub (c # cs) = (starts_with sub (c # cs) \<or> py_contains sub cs)"

text \<open>
  \<^verbatim>\<open>t.count(sub)\<close>: the number of non-overlapping occurrences of \<open>sub\<close> in \<open>t\<close>, found
  scanning from the left; for the empty \<open>sub\<close> it is \<open>len(t) + 1\<close>.
\<close>

fun count_from :: "string \<Rightarrow> string \<Rightarrow> nat" where
  "count_from sub [] = 0"
| "count_from sub (c # cs) =
     (if starts_with sub (c # cs) then Suc (count_from sub (drop (length sub - 1) cs))
      else count_from sub cs)"

definition py_count :: "string \<Rightarrow> string \<Rightarrow> nat" where
  "py_count t sub = (if sub = [] then length t + 1 else count_from sub t)"

text \<open>\<^verbatim>\<open>sep.join(parts)\<close>.\<close>

fun py_join :: "string \<Rightarrow> string list \<Rightarrow> string" where
  "py_join sep [] = []"
| "py_join sep [p] = p"
| "py_join sep (p # q # ps) = p @ sep @ py_join sep (q # ps)"

section \<open>Scorer\<close>

text \<open>
  \<^verbatim>\<open>_score_match(text, terms)\<close>. The loop body is \<open>score_step\<close>: it takes the lowercased
  text, the running score and the next term. The scores are Python floats; every value
  added here is a multiple of one half, which floats add exactly, so the sum is modelled
  in \<open>real\<close>.
\<close>

definition score_step :: "string \<Rightarrow> real \<Rightarrow> string \<Rightarrow> real" where
  "score_step t score term =
     (if term = [] then score
      else let term' = py_lower term;
               score1 = (if py_contains term' t then score + 2 else score)
           in score1 + real (py_count t term') * (1 / 2))"

definition score_match :: "string \<Rightarrow> string list \<Rightarrow> real" where
  "score_match text terms =
     (if text = [] then 0 else foldl (score_step (py_lower text)) 0 terms)"

text \<open>
  The scorer as the specification words it: over the non-empty terms, 2 for containment in
  the lowercased text plus one half per occurrence; 0 for the empty text.
\<close>

definition scoreText_spec :: "string \<Rightarrow> string list \<Rightarrow> real" where
  "scoreText_spec text terms =
     (if text = [] then 0
      else (\<Sum>term \<leftarrow> filter (\<lambda>x. x \<noteq> []) terms.
              (if py_contains (py_lower term) (py_lower text) then 2 else 0)
              + (1 / 2) * real (py_count (py_lower text) (py_lower term))))"

section \<open>Term extractor\<close>

text \<open>The stopword set of \<^verbatim>\<open>_build_terms\<close>, in the order of its literal.\<close>

definition stop :: "string list" where
  "stop = [''and'', ''or'', ''for'', ''the'', ''a'', ''an'', ''to'', ''of'', ''on'', ''in'',
           ''with'', ''by'', ''from'', ''at'', ''into'', ''over'', ''under'', ''across'']"

text \<open>
  \<^verbatim>\<open>re.sub(r"[^\w\s\-+/]", " ", s)\<close>: every character that is not a word character,
  whitespace, hyphen, plus or slash becomes a blank.
\<close>

definition is_sep :: "char \<Rightarrow> bool" where
  "is_sep c = (c = CHR ''-'' \<or> c = CHR ''/'' \<or> c = CHR ''+'')"

definition drop_punct :: "string \<Rightarrow> string" where
  "drop_punct s = map (\<lambda>c. if is_word c \<or> is_space c \<or> is_sep c then c else CHR '' '') s"

text \<open>\<^verbatim>\<open>s.split()\<close>: the maximal runs of non-whitespace characters; \<open>cur\<close> is the run being read.\<close>

fun split_ws :: "string \<Rightarrow> string \<Rightarrow> string list" where
  "split_ws cur [] = (if cur = [] then [] else [cur])"
| "split_ws cur (c # cs) =
     (if is_space c then (if cur = [] then split_ws [] cs else cur # split_ws [] cs)
      else split_ws (cur @ [c]) cs)"

definition py_split :: "string \<Rightarrow> string list" where
  "py_split s = split_ws [] s"

text \<open>\<^verbatim>\<open>re.split(r"[-/+]", w)\<close>: cut at every separator, empty pieces included.\<close>

fun split_sep :: "string \<Rightarrow> string \<Rightarrow> string list" where
  "split_sep cur [] = [cur]"
| "split_sep cur (c # cs) =
     (if is_sep c then cur # split_sep [] cs else split_sep (cur @ [c]) cs)"

definition re_split :: "string \<Rightarrow> string list" where
  "re_split w = split_sep [] w"

text \<open>\<^verbatim>\<open>w.strip()\<close>.\<close>

definition py_strip :: "string \<Rightarrow> string" where
  "py_strip w = rev (dropWhile is_space (rev (dropWhile is_space w)))"

text \<open>The inner \<^verbatim>\<open>add_tokens(s)\<close>, which appends to the list \<open>tokens\<close> it closes over.\<close>

definition add_tokens :: "string list \<Rightarrow> string \<Rightarrow> string list" where
  "add_tokens tokens s =
     (let parts = concat (map re_split (py_split (drop_punct s)))
      in tokens @ filter (\<lambda>w. 2 \<le> length w \<and> py_lower w \<notin> set stop) (map py_strip parts))"

text \<open>
  JSON values as \<^verbatim>\<open>json.loads\<close> delivers them. An object is the association list of its
  keys, read with \<open>map_of\<close>. \<open>JNaN\<close> and \<open>JInfinity\<close> are the non-finite floats that the
  parser also accepts.
\<close>

datatype json =
    JNull
  | JBool bool
  | JInt int
  | JFloat real
  | JNaN
  | JInfinity bool
  | JStr string
  | JList "json list"
  | JObj "(string \<times> json) list"

text \<open>The strings among the keywords: \<^verbatim>\<open>if isinstance(k, str)\<close>.\<close>

fun str_items :: "json list \<Rightarrow> string list" where
  "str_items [] = []"
| "str_items (JStr s # ks) = s # str_items ks"
| "str_items (k # ks) = str_items ks"

text \<open>The synonym expansion of one token: the token, then its aliases.\<close>

definition expand :: "string \<Rightarrow> string list" where
  "expand t =
     (let tl = py_lower t
      in [t]
         @ (if tl = ''llm'' then [''large language model''] else [])
         @ (if tl = ''rag'' then [''retrieval augmented generation''] else [])
         @ (if tl = ''geospatial'' \<or> tl = ''gis''
            then [''geopandas'', ''openstreetmap'', ''osmnx'', ''mapbox''] else [])
         @ (if tl = ''langchain'' then [''chatbot''] else []))"

text \<open>The last loop: \<open>seen\<close> is the set of lowercased keys, \<open>out\<close> the terms kept so far.\<close>

fun dedupe_terms :: "string set \<Rightarrow> string list \<Rightarrow> string list \<Rightarrow> string list" where
  "dedupe_terms seen out [] = out"
| "dedupe_terms seen out (t # ts) =
     (let key = py_lower t
      in if key \<notin> seen then dedupe_terms (insert key seen) (out @ [t]) ts
         else dedupe_terms seen out ts)"

definition expanded_terms :: "string list \<Rightarrow> json list \<Rightarrow> string list" where
  "expanded_terms ideas extra_keywords =
     (let tokens = foldl add_tokens [] ideas;
          tokens = (if extra_keywords \<noteq> [] then foldl add_tokens tokens (str_items extra_keywords)
                    else tokens)
      in concat (map expand tokens))"

definition build_terms :: "string list \<Rightarrow> json list \<Rightarrow> string list" where
  "build_terms ideas extra_keywords = take 20 (dedupe_terms {} [] (expanded_terms ideas extra_keywords))"

text \<open>
  Case-insensitive deduplication that keeps the first occurrence, as the specification
  words it: an element stays, and every later element with the same key goes.
\<close>

fun keep_first :: "('a \<Rightarrow> 'k) \<Rightarrow> 'a list \<Rightarrow> 'a list" where
  "keep_first key [] = []"
| "keep_first key (x # xs) = x # keep_first key (filter (\<lambda>y. key y \<noteq> key x) xs)"

text \<open>The property \<^verbatim>\<open>add_tokens\<close> checks before it appends a token.\<close>

definition ok_term :: "string \<Rightarrow> bool" where
  "ok_term w = (2 \<le> length w \<and> py_lower w \<notin> set stop)"

section \<open>Candidates\<close>

text \<open>
  A candidate is the dict literal every adapter appends: the same ten keys each time,
  the contact fields a string or \<^verbatim>\<open>None\<close>, the score a float.
\<close>

record candidate =
  source :: string
  name :: "string option"
  username :: "string option"
  profile_url :: "string option"
  public_email :: "string option"
  blog :: "string option"
  location :: "string option"
  company :: "string option"
  evidence :: json
  score :: real

text \<open>\<^verbatim>\<open>x or ""\<close> on a string or \<^verbatim>\<open>None\<close>.\<close>

definition or_empty :: "string option \<Rightarrow> string" where
  "or_empty x = (case x of None \<Rightarrow> [] | Some s \<Rightarrow> s)"

section \<open>Aggregation: dedup, rank and clip\<close>

text \<open>
  The key of \<^verbatim>\<open>_dedupe_keep_best\<close>. The source joins with \<^verbatim>\<open>"||"\<close> the characters of the
  string \<^verbatim>\<open>url.lower() + "|" + username.lower()\<close>: the argument of \<^verbatim>\<open>join\<close> is one string.
\<close>

definition key_string :: "candidate \<Rightarrow> string" where
  "key_string it = py_lower (or_empty (profile_url it)) @ ''|'' @ py_lower (or_empty (username it))"

definition dedupe_key :: "candidate \<Rightarrow> string" where
  "dedupe_key it = py_join ''||'' (map (\<lambda>c. [c]) (key_string it))"

text \<open>
  A Python dict keeps its keys in insertion order, and assigning to a key that is present
  replaces the value where it stands: an association list with unique keys.
\<close>

fun dict_set :: "('k \<times> 'v) list \<Rightarrow> 'k \<Rightarrow> 'v \<Rightarrow> ('k \<times> 'v) list" where
  "dict_set [] k v = [(k, v)]"
| "dict_set ((k', v') # d) k v =
     (if k' = k then (k, v) # d else (k', v') # dict_set d k v)"

definition dedupe_step :: "(string \<times> candidate) list \<Rightarrow> candidate \<Rightarrow> (string \<times> candidate) list" where
  "dedupe_step bykey it =
     (let k = dedupe_key it
      in case map_of bykey k of
           Some cur \<Rightarrow> if score it > score cur then dict_set bykey k it else bykey
         | None \<Rightarrow> dict_set bykey k it)"

definition dedupe_keep_best :: "candidate list \<Rightarrow> candidate list" where
  "dedupe_keep_best items = map snd (foldl dedupe_step [] items)"


text \<open>The group of a key: the candidates of the input with that key, in input order.\<close>

definition group_of :: "string \<Rightarrow> candidate list \<Rightarrow> candidate list" where
  "group_of k items = filter (\<lambda>x. dedupe_key x = k) items"

text \<open>
  \<open>s\<close> stands in \<open>g\<close> after candidates of strictly smaller score and before candidates
  of no larger score.
\<close>

definition wins :: "candidate list \<Rightarrow> candidate \<Rightarrow> bool" where
  "wins g s =
     (\<exists>pre post. g = pre @ s # post \<and> (\<forall>x \<in> set pre. score x < score s)
        \<and> (\<forall>x \<in> set post. score x \<le> score s))"

text \<open>
  \<^verbatim>\<open>sorted(items, key=..., reverse=True)\<close>: the list is reversed, sorted stably in ascending
  order of the key, and reversed again. \<open>sort_key\<close> is the stable insertion sort.
\<close>

definition py_sorted_reverse :: "('a \<Rightarrow> real) \<Rightarrow> 'a list \<Rightarrow> 'a list" where
  "py_sorted_reverse key xs = rev (sort_key key (rev xs))"

text \<open>\<^verbatim>\<open>xs[:n]\<close>; a negative \<open>n\<close> counts from the end.\<close>

definition py_slice_to :: "'a list \<Rightarrow> int \<Rightarrow> 'a list" where
  "py_slice_to xs n =
     (if 0 \<le> n then take (nat n) xs else take (length xs - nat (- n)) xs)"

definition clip :: "candidate list \<Rightarrow> int \<Rightarrow> candidate list" where
  "clip items n = py_slice_to (py_sorted_reverse score items) n"

section \<open>Exceptions and truthiness\<close>

text \<open>\<open>RequestError\<close> stands for whatever an outbound call raises.\<close>

datatype exn = ValueError | TypeError | AttributeError | OverflowError | RequestError

fun truthy :: "json \<Rightarrow> bool" where
  "truthy JNull = False"
| "truthy (JBool b) = b"
| "truthy (JInt i) = (i \<noteq> 0)"
| "truthy (JFloat r) = (r \<noteq> 0)"
| "truthy JNaN = True"
| "truthy (JInfinity neg) = True"
| "truthy (JStr s) = (s \<noteq> [])"
| "truthy (JList xs) = (xs \<noteq> [])"
| "truthy (JObj kvs) = (kvs \<noteq> [])"

text \<open>\<^verbatim>\<open>a or b\<close>.\<close>

definition py_or :: "json \<Rightarrow> json \<Rightarrow> json" where
  "py_or a b = (if truthy a then a else b)"

text \<open>\<^verbatim>\<open>d.get(k)\<close> on a parsed object.\<close>

definition obj_get :: "(string \<times> json) list \<Rightarrow> string \<Rightarrow> json" where
  "obj_get kvs k = (case map_of kvs k of None \<Rightarrow> JNull | Some v \<Rightarrow> v)"

section \<open>The aggregation-time location boost\<close>

text \<open>
  Lines 439 to 443 of the handler. Every element of \<^verbatim>\<open>results\<close> is a dict that one adapter
  built afresh, so the in-place update of the loop is a map over the list. A request
  location that is truthy but no string has no \<^verbatim>\<open>lower\<close>: the first iteration raises.
\<close>

definition boost_one :: "string \<Rightarrow> candidate \<Rightarrow> candidate" where
  "boost_one loc r =
     (let l = or_empty (location r)
      in if py_contains (py_lower loc) (py_lower l) then r\<lparr>score := score r + 1 / 2\<rparr> else r)"

definition location_boost :: "json \<Rightarrow> candidate list \<Rightarrow> exn + candidate list" where
  "location_boost loc results =
     (if truthy loc
      then (case loc of
              JStr s \<Rightarrow> Inr (map (boost_one s) results)
            | _ \<Rightarrow> if results = [] then Inr [] else Inl AttributeError)
      else Inr results)"

text \<open>
  The aggregator as the specification's contract names it: boost, dedup, rank and clip.
\<close>

definition aggregate :: "candidate list \<Rightarrow> json \<Rightarrow> int \<Rightarrow> exn + candidate list" where
  "aggregate candidates loc limit =
     (case location_boost loc candidates of
        Inl e \<Rightarrow> Inl e
      | Inr boosted \<Rightarrow> Inr (clip (dedupe_keep_best boosted) limit))"

section \<open>The StackExchange adapter\<close>

text \<open>
  \<^verbatim>\<open>search_stackexchange_users\<close>. The two outbound calls are parameters: \<open>fetch_users\<close>
  answers the user search with the items of the payload, \<open>fetch_top_tags\<close> answers the
  top-tags call of one user with the \<^verbatim>\<open>tag_name\<close> of each item. The items are read through
  the keys the adapter reads.
\<close>

record se_user =
  user_id :: "int option"
  display_name :: "string option"
  link :: "string option"
  website_url :: "string option"
  u_location :: "string option"

text \<open>\<^verbatim>\<open>str(uid)\<close>.\<close>

fun str_nat :: "nat \<Rightarrow> string" where
  "str_nat n = (if n < 10 then [char_of (48 + n)] else str_nat (n div 10) @ [char_of (48 + n mod 10)])"

definition py_str :: "int option \<Rightarrow> string" where
  "py_str uid =
     (case uid of
        None \<Rightarrow> ''None''
      | Some i \<Rightarrow> if i < 0 then CHR ''-'' # str_nat (nat (- i)) else str_nat (nat i))"

text \<open>The condition of line 221.\<close>

definition se_location_match :: "json \<Rightarrow> se_user \<Rightarrow> exn + bool" where
  "se_location_match loc u =
     (if \<not> truthy loc then Inr False
      else if or_empty (u_location u) = [] then Inr False
      else (case loc of
              JStr s \<Rightarrow> Inr (py_contains (py_lower s) (py_lower (or_empty (u_location u))))
            | _ \<Rightarrow> Inl AttributeError))"

definition se_text :: "se_user \<Rightarrow> string list \<Rightarrow> string" where
  "se_text u tag_names = py_join '' '' [or_empty (display_name u), py_join '' '' tag_names]"

definition se_candidate :: "string list \<Rightarrow> json \<Rightarrow> se_user \<Rightarrow> string list \<Rightarrow> exn + candidate" where
  "se_candidate terms loc u tag_names =
     (let sc = score_match (se_text u tag_names) terms
      in case se_location_match loc u of
           Inl e \<Rightarrow> Inl e
         | Inr m \<Rightarrow>
             Inr \<lparr>source = ''stackexchange'',
                  name = display_name u,
                  username = Some (py_str (user_id u)),
                  profile_url = link u,
                  public_email = None,
                  blog = website_url u,
                  location = u_location u,
                  company = None,
                  evidence = JObj [(''top_tags'', JList (map JStr tag_names))],
                  score = (if m then sc + 1 else sc)\<rparr>)"

text \<open>The tag names kept: \<^verbatim>\<open>if it.get("tag_name")\<close>.\<close>

fun truthy_names :: "string option list \<Rightarrow> string list" where
  "truthy_names [] = []"
| "truthy_names (None # xs) = truthy_names xs"
| "truthy_names (Some s # xs) = (if s = [] then truthy_names xs else s # truthy_names xs)"

fun se_users_loop ::
  "(int option \<Rightarrow> exn + string option list) \<Rightarrow> string list \<Rightarrow> json \<Rightarrow> candidate list
     \<Rightarrow> se_user list \<Rightarrow> exn + candidate list" where
  "se_users_loop fetch_top_tags terms loc out [] = Inr out"
| "se_users_loop fetch_top_tags terms loc out (u # us) =
     (case fetch_top_tags (user_id u) of
        Inl e \<Rightarrow> Inl e
      | Inr items \<Rightarrow>
          (case se_candidate terms loc u (truthy_names items) of
             Inl e \<Rightarrow> Inl e
           | Inr c \<Rightarrow> se_users_loop fetch_top_tags terms loc (out @ [c]) us))"

definition search_stackexchange_users ::
  "(string \<Rightarrow> int \<Rightarrow> exn + se_user list) \<Rightarrow> (int option \<Rightarrow> exn + string option list)
     \<Rightarrow> string list \<Rightarrow> json \<Rightarrow> int \<Rightarrow> exn + candidate list" where
  "search_stackexchange_users fetch_users fetch_top_tags terms loc pagesize =
     (let top_term = (case terms of [] \<Rightarrow> ''engineer'' | t # _ \<Rightarrow> t)
      in case fetch_users top_term pagesize of
           Inl e \<Rightarrow> Inl e
         | Inr users \<Rightarrow> se_users_loop fetch_top_tags terms loc [] users)"

section \<open>The request handler\<close>

definition DEFAULT_MAX :: int where
  "DEFAULT_MAX = 10"

definition PER_SOURCE_CAP :: int where
  "PER_SOURCE_CAP = 20"

text \<open>
  What the handler calls outside this file: the five adapters, each of which returns its
  candidates or raises, and Python's \<^verbatim>\<open>int\<close> on a string.
\<close>

record env =
  github :: "string list \<Rightarrow> json \<Rightarrow> int \<Rightarrow> exn + candidate list"
  stackexchange :: "string list \<Rightarrow> json \<Rightarrow> int \<Rightarrow> exn + candidate list"
  huggingface :: "string list \<Rightarrow> int \<Rightarrow> exn + candidate list"
  paperswithcode :: "string list \<Rightarrow> int \<Rightarrow> exn + candidate list"
  kaggle :: "string list \<Rightarrow> int \<Rightarrow> exn + candidate list"
  int_of_str :: "string \<Rightarrow> exn + int"

text \<open>
  \<^verbatim>\<open>int(x)\<close>: a float is truncated towards zero, a boolean counts as 0 or 1, a non-finite
  float, \<^verbatim>\<open>None\<close>, a list and an object raise.
\<close>

definition py_int :: "env \<Rightarrow> json \<Rightarrow> exn + int" where
  "py_int e x =
     (case x of
        JInt i \<Rightarrow> Inr i
      | JBool b \<Rightarrow> Inr (if b then 1 else 0)
      | JFloat r \<Rightarrow> Inr (if 0 \<le> r then \<lfloor>r\<rfloor> else \<lceil>r\<rceil>)
      | JNaN \<Rightarrow> Inl ValueError
      | JInfinity neg \<Rightarrow> Inl OverflowError
      | JStr s \<Rightarrow> int_of_str e s
      | _ \<Rightarrow> Inl TypeError)"

text \<open>The response: the status code and the JSON body, an error object or the result.\<close>

datatype body =
    ErrorBody string
  | ResultBody (candidates: "candidate list") (query_terms: "string list") (meta_location: json)

datatype http_response = HttpResponse (status_code: nat) (body: body)

text \<open>\<^verbatim>\<open>isinstance(x, str) and x.strip()\<close>.\<close>

fun nonblank_str :: "json \<Rightarrow> bool" where
  "nonblank_str (JStr s) = (py_strip s \<noteq> [])"
| "nonblank_str x = False"

text \<open>The negation of the condition of line 402.\<close>

fun ideas_pass :: "json \<Rightarrow> bool" where
  "ideas_pass (JList xs) = list_all nonblank_str xs"
| "ideas_pass x = False"

fun is_list :: "json \<Rightarrow> bool" where
  "is_list (JList xs) = True"
| "is_list x = False"

fun items_of :: "json \<Rightarrow> json list" where
  "items_of (JList xs) = xs"
| "items_of x = []"

fun strings_of :: "json list \<Rightarrow> string list" where
  "strings_of [] = []"
| "strings_of (JStr s # xs) = s # strings_of xs"
| "strings_of (x # xs) = strings_of xs"

text \<open>
  One \<^verbatim>\<open>try\<close> block of the fan-out: the candidates of an adapter that returns are appended,
  an adapter that raises is logged and skipped. The second component records which
  adapters were invoked, in order.
\<close>

definition try_source ::
  "candidate list \<times> string list \<Rightarrow> string \<Rightarrow> exn + candidate list \<Rightarrow> candidate list \<times> string list" where
  "try_source st nm outcome =
     (case outcome of
        Inr cs \<Rightarrow> (fst st @ cs, snd st @ [nm])
      | Inl e \<Rightarrow> (fst st, snd st @ [nm]))"

definition fan_out :: "env \<Rightarrow> string list \<Rightarrow> json \<Rightarrow> int \<Rightarrow> candidate list \<times> string list" where
  "fan_out e terms loc max_results =
     (let st = ([], []);
          st = try_source st ''github'' (github e terms loc (min PER_SOURCE_CAP max_results));
          st = try_source st ''stackexchange''
                 (stackexchange e terms loc (min PER_SOURCE_CAP max_results));
          st = try_source st ''huggingface'' (huggingface e terms 40);
          st = try_source st ''paperswithcode'' (paperswithcode e terms (min 50 (max_results * 2)));
          st = try_source st ''kaggle'' (kaggle e terms (min 40 (max_results * 2)))
      in st)"

text \<open>
  \<^verbatim>\<open>suggest_collaborators(req)\<close>. The request is the parsed body, \<open>None\<close> when \<^verbatim>\<open>get_json\<close>
  raises \<^verbatim>\<open>ValueError\<close>. The result is the response, or the exception that leaves the
  handler, together with the adapters invoked.
\<close>

definition suggest_collaborators ::
  "env \<Rightarrow> json option \<Rightarrow> (exn + http_response) \<times> string list" where
  "suggest_collaborators e req =
     (case req of
        None \<Rightarrow> (Inr (HttpResponse 400 (ErrorBody ''Invalid JSON body'')), [])
      | Some (JObj payload) \<Rightarrow>
          (let ideas = obj_get payload ''ideas''
           in if \<not> ideas_pass ideas
              then (Inr (HttpResponse 400
                      (ErrorBody ([CHR 0x27] @ ''ideas'' @ [CHR 0x27]
                         @ '' must be a non-empty list of strings''))), [])
              else
                (let keywords = py_or (obj_get payload ''keywords'') (JList [])
                 in if \<not> is_list keywords
                    then (Inr (HttpResponse 400
                            (ErrorBody ([CHR 0x27] @ ''keywords'' @ [CHR 0x27]
                               @ '' must be a list of strings''))), [])
                    else
                      (let loc = obj_get payload ''location''
                       in case py_int e (py_or (obj_get payload ''max_results'') (JInt DEFAULT_MAX)) of
                            Inl x \<Rightarrow> (Inl x, [])
                          | Inr max_results \<Rightarrow>
                              (let terms = build_terms (strings_of (items_of ideas)) (items_of keywords);
                                   st = fan_out e terms loc max_results
                               in case location_boost loc (fst st) of
                                    Inl x \<Rightarrow> (Inl x, snd st)
                                  | Inr results \<Rightarrow>
                                      (let deduped = dedupe_keep_best results;
                                           ranked = clip deduped max_results
                                       in (Inr (HttpResponse 200 (ResultBody ranked terms loc)),
                                           snd st))))))
      | Some other \<Rightarrow> (Inl AttributeError, []))"

text \<open>The candidates that the adapters which returned contributed, in the order of the fan-out.\<close>

definition contributed :: "env \<Rightarrow> string list \<Rightarrow> json \<Rightarrow> int \<Rightarrow> candidate list" where
  "contributed e terms loc max_results =
     concat (map (\<lambda>outcome. case outcome of Inl x \<Rightarrow> [] | Inr cs \<Rightarrow> cs)
       [github e terms loc (min PER_SOURCE_CAP max_results),
        stackexchange e terms loc (min PER_SOURCE_CAP max_results),
        huggingface e terms 40,
        paperswithcode e terms (min 50 (max_results * 2)),
        kaggle e terms (min 40 (max_results * 2))])"

text \<open>
  A request the specification calls valid: \<^verbatim>\<open>ideas\<close> a non-empty list of non-blank strings,
  \<^verbatim>\<open>keywords\<close> absent or a list, \<^verbatim>\<open>location\<close> absent or a string, \<^verbatim>\<open>max_results\<close> absent or a
  positive integer.
\<close>

fun null_or_str :: "json \<Rightarrow> bool" where
  "null_or_str JNull = True"
| "null_or_str (JStr s) = True"
| "null_or_str x = False"

fun null_or_list :: "json \<Rightarrow> bool" where
  "null_or_list JNull = True"
| "null_or_list (JList xs) = True"
| "null_or_list x = False"

fun null_or_positive :: "json \<Rightarrow> bool" where
  "null_or_positive JNull = True"
| "null_or_positive (JInt i) = (0 < i)"
| "null_or_positive x = False"

definition valid_request :: "(string \<times> json) list \<Rightarrow> bool" where
  "valid_request payload =
     (ideas_pass (obj_get payload ''ideas'') \<and> obj_get payload ''ideas'' \<noteq> JList []
      \<and> null_or_list (obj_get payload ''keywords'')
      \<and> null_or_str (obj_get payload ''location'')
      \<and> null_or_positive (obj_get payload ''max_results''))"

text \<open>The limit a valid request asks for.\<close>

definition requested_limit :: "(string \<times> json) list \<Rightarrow> int" where
  "requested_limit payload =
     (case obj_get payload ''max_results'' of JInt i \<Rightarrow> i | _ \<Rightarrow> DEFAULT_MAX)"

text \<open>The terms, the location and the adapter names of a request the handler serves.\<close>

definition request_terms :: "(string \<times> json) list \<Rightarrow> string list" where
  "request_terms payload =
     build_terms (strings_of (items_of (obj_get payload ''ideas'')))
       (items_of (py_or (obj_get payload ''keywords'') (JList [])))"

definition all_sources :: "string list" where
  "all_sources = [''github'', ''stackexchange'', ''huggingface'', ''paperswithcode'', ''kaggle'']"

section \<open>Sample data\<close>

text \<open>An environment whose five sources find nobody, and a candidate with only the keyed fields set.\<close>

definition quiet_env :: env where
  "quiet_env =
     \<lparr>github = (\<lambda>terms loc n. Inr []),
      stackexchange = (\<lambda>terms loc n. Inr []),
      huggingface = (\<lambda>terms n. Inr []),
      paperswithcode = (\<lambda>terms n. Inr []),
      kaggle = (\<lambda>terms n. Inr []),
      int_of_str = (\<lambda>s. Inl ValueError)\<rparr>"

definition person :: "string option \<Rightarrow> string option \<Rightarrow> real \<Rightarrow> candidate" where
  "person url user sc =
     \<lparr>source = ''github'', name = None, username = user, profile_url = url,
      public_email = None, blog = None, location = None, company = None,
      evidence = JNull, score = sc\<rparr>"

text \<open>An environment in which one source reports two accounts under one profile link.\<close>

definition shared_url_env :: env where
  "shared_url_env =
     quiet_env\<lparr>github := (\<lambda>terms loc n.
        Inr [person (Some ''https://example.org/p'') (Some ''ann'') 2,
             person (Some ''https://example.org/p'') (Some ''bob'') 1])\<rparr>"

text \<open>Two candidates agree on every field but the score.\<close>

definition same_but_score :: "candidate \<Rightarrow> candidate \<Rightarrow> bool" where
  "same_but_score c c0 =
     (source c = source c0 \<and> name c = name c0 \<and> username c = username c0
      \<and> profile_url c = profile_url c0 \<and> public_email c = public_email c0
      \<and> blog c = blog c0 \<and> location c = location c0 \<and> company c = company c0
      \<and> evidence c = evidence c0)"

text \<open>An environment in which two sources raise and one returns a candidate.\<close>

definition flaky_env :: env where
  "flaky_env =
     quiet_env\<lparr>github := (\<lambda>terms loc n. Inl RequestError),
               huggingface := (\<lambda>terms n. Inr [person (Some ''https://huggingface.co/ann'') (Some ''ann'') 2]),
               kaggle := (\<lambda>terms n. Inl RequestError)\<rparr>"

text \<open>A StackExchange user located in Sofia.\<close>

definition sofia_user :: se_user where
  "sofia_user =
     \<lparr>user_id = Some 1205, display_name = Some ''Ann'', link = Some ''https://stackoverflow.com/users/1205'',
      website_url = None, u_location = Some ''Sofia, Bulgaria''\<rparr>"

section \<open>The scorer meets its specification\<close>

lemma foldl_score_step:
  "foldl (score_step t) a terms =
     a + (\<Sum>term \<leftarrow> filter (\<lambda>x. x \<noteq> []) terms.
            (if py_contains (py_lower term) t then 2 else 0)
            + (1 / 2) * real (py_count t (py_lower term)))"
  by (induction terms arbitrary: a) (simp_all add: score_step_def Let_def)

text \<open>
  Claim C7. For every text and term list, the scorer returns the sum, over the non-empty
  terms, of 2 when the lowercased text contains the lowercased term plus one half times
  the number of occurrences of the term in the lowercased text (counted as \<^verbatim>\<open>str.count\<close>
  counts them); it returns 0 for the empty text whatever the terms; and
  \<^verbatim>\<open>scoreText("developer tools for RAG", ["rag"])\<close> is 2.5.
\<close>

theorem score_match_is_scoreText:
  "score_match text terms = scoreText_spec text terms
   \<and> score_match [] terms = 0
   \<and> score_match ''developer tools for RAG'' [''rag''] = 5 / 2"
proof (intro conjI)
  show "score_match text terms = scoreText_spec text terms"
    by (simp add: score_match_def scoreText_spec_def foldl_score_step)
  show "score_match [] terms = 0"
    by (simp add: score_match_def)
  show "score_match ''developer tools for RAG'' [''rag''] = 5 / 2"
    by code_simp
qed

section \<open>The term extractor\<close>

lemma stop_lower: "\<forall>s \<in> set stop. py_lower s = s"
  by code_simp

lemma aliases_ok:
  "\<forall>s \<in> set [''large language model'', ''retrieval augmented generation'', ''geopandas'',
               ''openstreetmap'', ''osmnx'', ''mapbox'', ''chatbot'']. ok_term s"
  by code_simp

lemma add_tokens_ok:
  "\<forall>w \<in> set tokens. ok_term w \<Longrightarrow> \<forall>w \<in> set (add_tokens tokens s). ok_term w"
  by (auto simp: add_tokens_def ok_term_def Let_def)

lemma foldl_add_tokens_ok:
  "\<forall>w \<in> set tokens. ok_term w \<Longrightarrow> \<forall>w \<in> set (foldl add_tokens tokens ss). ok_term w"
proof (induction ss arbitrary: tokens)
  case Nil
  then show ?case by simp
next
  case (Cons s ss)
  from Cons.prems have "\<forall>w \<in> set (add_tokens tokens s). ok_term w"
    by (rule add_tokens_ok)
  then show ?case using Cons.IH by simp
qed

lemma expand_ok: "ok_term t \<Longrightarrow> \<forall>w \<in> set (expand t). ok_term w"
  using aliases_ok by (auto simp: expand_def Let_def)

lemma expanded_terms_ok: "\<forall>w \<in> set (expanded_terms ideas kws). ok_term w"
proof -
  have a: "\<forall>w \<in> set (foldl add_tokens [] ideas). ok_term w"
    by (rule foldl_add_tokens_ok) simp
  then have b: "\<forall>w \<in> set (foldl add_tokens (foldl add_tokens [] ideas) (str_items kws)). ok_term w"
    by (rule foldl_add_tokens_ok)
  show ?thesis using a b expand_ok by (auto simp: expanded_terms_def Let_def)
qed

lemma dedupe_terms_keep_first:
  "dedupe_terms seen out ts = out @ keep_first py_lower (filter (\<lambda>t. py_lower t \<notin> seen) ts)"
proof (induction ts arbitrary: seen out)
  case Nil
  then show ?case by simp
next
  case (Cons t ts)
  show ?case
  proof (cases "py_lower t \<in> seen")
    case True
    then show ?thesis using Cons.IH [of seen out] by simp
  next
    case False
    have "filter (\<lambda>y. py_lower y \<noteq> py_lower t) (filter (\<lambda>y. py_lower y \<notin> seen) ts)
          = filter (\<lambda>y. py_lower y \<notin> insert (py_lower t) seen) ts"
      unfolding filter_filter by (rule filter_cong) auto
    then show ?thesis using False Cons.IH [of "insert (py_lower t) seen" "out @ [t]"]
      by (simp del: filter_filter)
  qed
qed

lemma set_keep_first: "set (keep_first key xs) \<subseteq> set xs"
  by (induction key xs rule: keep_first.induct) auto

lemma distinct_keep_first: "distinct (map key (keep_first key xs))"
proof (induction key xs rule: keep_first.induct)
  case (1 key)
  then show ?case by simp
next
  case (2 key x xs)
  have "key x \<notin> key ` set (keep_first key (filter (\<lambda>y. key y \<noteq> key x) xs))"
    using set_keep_first [of key "filter (\<lambda>y. key y \<noteq> key x) xs"] by auto
  then show ?case using 2 by simp
qed

lemma keys_keep_first: "key ` set (keep_first key xs) = key ` set xs"
proof (induction key xs rule: keep_first.induct)
  case (1 key)
  then show ?case by simp
next
  case (2 key x xs)
  then show ?case by auto
qed

lemma find_filter_weaker:
  "(\<And>x. P x \<Longrightarrow> Q x) \<Longrightarrow> find P (filter Q xs) = find P xs"
  by (induction xs) auto

lemma keep_first_is_first:
  "t \<in> set (keep_first key xs) \<Longrightarrow> find (\<lambda>x. key x = key t) xs = Some t"
proof (induction key xs rule: keep_first.induct)
  case (1 key)
  then show ?case by simp
next
  case (2 key x xs)
  show ?case
  proof (cases "t = x")
    case True
    then show ?thesis by simp
  next
    case False
    with 2(2) have mem: "t \<in> set (keep_first key (filter (\<lambda>y. key y \<noteq> key x) xs))"
      by simp
    then have "t \<in> set (filter (\<lambda>y. key y \<noteq> key x) xs)"
      using set_keep_first by fastforce
    then have ne: "key t \<noteq> key x" by simp
    have "find (\<lambda>y. key y = key t) (filter (\<lambda>y. key y \<noteq> key x) xs) = Some t"
      using 2(1) mem by simp
    moreover have "find (\<lambda>y. key y = key t) (filter (\<lambda>y. key y \<noteq> key x) xs)
                   = find (\<lambda>y. key y = key t) xs"
      using ne by (intro find_filter_weaker) auto
    ultimately show ?thesis using ne by auto
  qed
qed

text \<open>
  Claim C6. For all ideas and keywords, the term list has at most 20 entries, none of them
  a stopword (not even up to case), none shorter than 2 characters, no two equal up to
  case; and it is the first 20 entries of the expanded token list deduplicated
  case-insensitively with the first occurrence kept.
\<close>

theorem build_terms_invariant:
  "length (build_terms ideas kws) \<le> 20
   \<and> (\<forall>t \<in> set (build_terms ideas kws). t \<notin> set stop \<and> py_lower t \<notin> set stop \<and> 2 \<le> length t)
   \<and> distinct (map py_lower (build_terms ideas kws))
   \<and> build_terms ideas kws = take 20 (keep_first py_lower (expanded_terms ideas kws))"
proof -
  let ?e = "expanded_terms ideas kws"
  have eq: "build_terms ideas kws = take 20 (keep_first py_lower ?e)"
    by (simp add: build_terms_def dedupe_terms_keep_first)
  have sub: "set (build_terms ideas kws) \<subseteq> set ?e"
    unfolding eq using set_take_subset set_keep_first by fast
  have ok: "\<forall>t \<in> set (build_terms ideas kws). ok_term t"
    using sub expanded_terms_ok by blast
  have c2: "\<forall>t \<in> set (build_terms ideas kws). t \<notin> set stop \<and> py_lower t \<notin> set stop \<and> 2 \<le> length t"
  proof
    fix t assume "t \<in> set (build_terms ideas kws)"
    with ok have o: "ok_term t" by blast
    then have "t \<notin> set stop" using stop_lower by (auto simp: ok_term_def)
    with o show "t \<notin> set stop \<and> py_lower t \<notin> set stop \<and> 2 \<le> length t"
      by (simp add: ok_term_def)
  qed
  have c3: "distinct (map py_lower (build_terms ideas kws))"
    unfolding eq take_map [symmetric] by (rule distinct_take) (rule distinct_keep_first)
  have c1: "length (build_terms ideas kws) \<le> 20" unfolding eq by simp
  from c1 c2 c3 eq show ?thesis by blast
qed

theorem build_terms_invariant_witness:
  "build_terms [''LLM-powered RAG app for the team''] [JStr ''rag'', JInt 3]
     = [''LLM'', ''large language model'', ''powered'', ''RAG'', ''retrieval augmented generation'',
        ''app'', ''team'']
   \<and> list_all (\<lambda>t. t \<notin> set stop \<and> py_lower t \<notin> set stop \<and> 2 \<le> length t)
         [''LLM'', ''large language model'', ''powered'', ''RAG'',
          ''retrieval augmented generation'', ''app'', ''team'']
   \<and> distinct (map py_lower [''LLM'', ''large language model'', ''powered'', ''RAG'',
          ''retrieval augmented generation'', ''app'', ''team''])"
proof -
  have v: "build_terms [''LLM-powered RAG app for the team''] [JStr ''rag'', JInt 3]
     = [''LLM'', ''large language model'', ''powered'', ''RAG'', ''retrieval augmented generation'',
        ''app'', ''team'']"
    by code_simp
  show ?thesis
    using build_terms_invariant [of "[''LLM-powered RAG app for the team'']" "[JStr ''rag'', JInt 3]"]
    unfolding v list_all_iff by blast
qed

section \<open>Deduplication keeps the best of each group\<close>

lemma dict_set_fresh: "k \<notin> fst ` set d \<Longrightarrow> dict_set d k v = d @ [(k, v)]"
  by (induction d) auto

lemma dict_set_keys: "k \<in> fst ` set d \<Longrightarrow> map fst (dict_set d k v) = map fst d"
  by (induction d) force+

lemma dict_set_present:
  "distinct (map fst d) \<Longrightarrow> (k, cur) \<in> set d \<Longrightarrow>
     set (dict_set d k v) = insert (k, v) (set d - {(k, cur)})"
proof (induction d)
  case Nil
  then show ?case by simp
next
  case (Cons p d)
  obtain k' v' where p: "p = (k', v')" by (cases p)
  show ?case
  proof (cases "k' = k")
    case True
    with Cons.prems p have "cur = v'" by (auto simp: image_iff)
    moreover from Cons.prems p True have "(k, v') \<notin> set d" by (auto simp: image_iff)
    ultimately show ?thesis using p True by auto
  next
    case False
    with Cons p show ?thesis by auto
  qed
qed

lemma wins_single: "wins [x] x"
  unfolding wins_def by (rule exI [of _ "[]"], rule exI [of _ "[]"]) simp

lemma wins_keep: "wins g cur \<Longrightarrow> score x \<le> score cur \<Longrightarrow> wins (g @ [x]) cur"
proof -
  assume w: "wins g cur" and le: "score x \<le> score cur"
  from w obtain pre post where g: "g = pre @ cur # post"
    and a: "\<forall>y \<in> set pre. score y < score cur" and b: "\<forall>y \<in> set post. score y \<le> score cur"
    unfolding wins_def by blast
  have "g @ [x] = pre @ cur # (post @ [x])" using g by simp
  moreover have "\<forall>y \<in> set (post @ [x]). score y \<le> score cur" using b le by simp
  ultimately show ?thesis unfolding wins_def using a by blast
qed

lemma wins_replace: "wins g cur \<Longrightarrow> score cur < score x \<Longrightarrow> wins (g @ [x]) x"
proof -
  assume w: "wins g cur" and lt: "score cur < score x"
  from w obtain pre post where g: "g = pre @ cur # post"
    and a: "\<forall>y \<in> set pre. score y < score cur" and b: "\<forall>y \<in> set post. score y \<le> score cur"
    unfolding wins_def by blast
  have "\<forall>y \<in> set g. score y < score x" using g a b lt by fastforce
  moreover have "g @ [x] = g @ x # []" by simp
  ultimately show ?thesis unfolding wins_def by (metis empty_iff empty_set)
qed



lemma dedupe_invariant:
  "distinct (map fst (foldl dedupe_step [] xs))
   \<and> fst ` set (foldl dedupe_step [] xs) = dedupe_key ` set xs
   \<and> (\<forall>(k, v) \<in> set (foldl dedupe_step [] xs). dedupe_key v = k \<and> wins (group_of k xs) v)"
proof (induction xs rule: rev_induct)
  case Nil
  then show ?case by simp
next
  case (snoc x xs)
  let ?d = "foldl dedupe_step [] xs"
  let ?k = "dedupe_key x"
  from snoc have dist: "distinct (map fst ?d)"
    and keys: "fst ` set ?d = dedupe_key ` set xs"
    and best: "\<forall>(k, v) \<in> set ?d. dedupe_key v = k \<and> wins (group_of k xs) v"
    by blast+
  have step: "foldl dedupe_step [] (xs @ [x]) = dedupe_step ?d x" by simp
  have other: "\<And>k. k \<noteq> ?k \<Longrightarrow> group_of k (xs @ [x]) = group_of k xs"
    by (simp add: group_of_def)
  have own: "group_of ?k (xs @ [x]) = group_of ?k xs @ [x]"
    by (simp add: group_of_def)
  show ?case
  proof (cases "map_of ?d ?k")
    case None
    then have fresh: "?k \<notin> fst ` set ?d" by (simp add: map_of_eq_None_iff)
    then have d': "dedupe_step ?d x = ?d @ [(?k, x)]"
      using None by (simp add: dedupe_step_def dict_set_fresh)
    have "?k \<notin> dedupe_key ` set xs" using fresh keys by simp
    then have empty: "group_of ?k xs = []"
      unfolding group_of_def filter_empty_conv by (metis image_eqI)
    have "\<forall>(k, v) \<in> set (?d @ [(?k, x)]). dedupe_key v = k \<and> wins (group_of k (xs @ [x])) v"
    proof (clarify)
      fix k v assume kv: "(k, v) \<in> set (?d @ [(?k, x)])"
      show "dedupe_key v = k \<and> wins (group_of k (xs @ [x])) v"
      proof (cases "(k, v) \<in> set ?d")
        case True
        then have "k \<noteq> ?k" using fresh by force
        then show ?thesis using True best other by fastforce
      next
        case False
        then have "k = ?k" "v = x" using kv by auto
        then show ?thesis using own empty wins_single by simp
      qed
    qed
    moreover have "distinct (map fst (?d @ [(?k, x)]))" using dist fresh by simp
    moreover have "fst ` set (?d @ [(?k, x)]) = dedupe_key ` set (xs @ [x])" using keys by auto
    ultimately show ?thesis unfolding step d' by blast
  next
    case (Some cur)
    then have mem: "(?k, cur) \<in> set ?d" by (rule map_of_SomeD)
    then have present: "?k \<in> fst ` set ?d" by force
    from mem best have wcur: "wins (group_of ?k xs) cur" by fastforce
    show ?thesis
    proof (cases "score x > score cur")
      case True
      then have d': "dedupe_step ?d x = dict_set ?d ?k x"
        using Some by (simp add: dedupe_step_def)
      have s': "set (dict_set ?d ?k x) = insert (?k, x) (set ?d - {(?k, cur)})"
        using dist mem by (rule dict_set_present)
      have k': "map fst (dict_set ?d ?k x) = map fst ?d"
        using present by (rule dict_set_keys)
      have wx: "wins (group_of ?k (xs @ [x])) x"
        unfolding own using wcur True by (rule wins_replace)
      have "\<forall>(k, v) \<in> set (dict_set ?d ?k x). dedupe_key v = k \<and> wins (group_of k (xs @ [x])) v"
      proof (clarify)
        fix k v assume kv: "(k, v) \<in> set (dict_set ?d ?k x)"
        show "dedupe_key v = k \<and> wins (group_of k (xs @ [x])) v"
        proof (cases "(k, v) = (?k, x)")
          case True
          then show ?thesis using wx by simp
        next
          case False
          with kv s' have in_d: "(k, v) \<in> set ?d" and ne: "(k, v) \<noteq> (?k, cur)" by auto
          have "k \<noteq> ?k"
          proof
            assume "k = ?k"
            with in_d mem dist have "v = cur" by (metis eq_key_imp_eq_value)
            with \<open>k = ?k\<close> ne show False by simp
          qed
          then show ?thesis using in_d best other by fastforce
        qed
      qed
      moreover have "distinct (map fst (dict_set ?d ?k x))" using dist k' by simp
      moreover have "fst ` set (dict_set ?d ?k x) = dedupe_key ` set (xs @ [x])"
      proof -
        have "fst ` set (dict_set ?d ?k x) = set (map fst (dict_set ?d ?k x))" by simp
        also have "\<dots> = fst ` set ?d" unfolding k' by simp
        finally show ?thesis using keys present by auto
      qed
      ultimately show ?thesis unfolding step d' by blast
    next
      case False
      then have d': "dedupe_step ?d x = ?d"
        using Some by (simp add: dedupe_step_def)
      have wc: "wins (group_of ?k (xs @ [x])) cur"
        unfolding own using wcur False by (intro wins_keep) auto
      have "\<forall>(k, v) \<in> set ?d. dedupe_key v = k \<and> wins (group_of k (xs @ [x])) v"
      proof (clarify)
        fix k v assume in_d: "(k, v) \<in> set ?d"
        show "dedupe_key v = k \<and> wins (group_of k (xs @ [x])) v"
        proof (cases "k = ?k")
          case True
          with in_d mem dist have "v = cur" by (metis eq_key_imp_eq_value)
          then show ?thesis using True wc in_d best by fastforce
        next
          case False
          then show ?thesis using in_d best other by fastforce
        qed
      qed
      moreover have "fst ` set ?d = dedupe_key ` set (xs @ [x])" using keys present by auto
      ultimately show ?thesis unfolding step d' using dist by blast
    qed
  qed
qed


lemma join_chars_simps:
  "py_join sep (map (\<lambda>c. [c]) []) = []"
  "py_join sep (map (\<lambda>c. [c]) [c]) = [c]"
  "py_join sep (map (\<lambda>c. [c]) (c # d # r)) = c # sep @ py_join sep (map (\<lambda>c. [c]) (d # r))"
  by simp_all









lemma dedupe_survivor_wins:
  "s \<in> set (dedupe_keep_best items) \<Longrightarrow> wins (group_of (dedupe_key s) items) s"
  using dedupe_invariant [of items] by (fastforce simp: dedupe_keep_best_def)

lemma wins_member: "wins g s \<Longrightarrow> s \<in> set g"
  by (auto simp: wins_def)

lemma dedupe_subset: "set (dedupe_keep_best items) \<subseteq> set items"
proof
  fix s assume "s \<in> set (dedupe_keep_best items)"
  then have "wins (group_of (dedupe_key s) items) s"
    by (rule dedupe_survivor_wins)
  then have "s \<in> set (group_of (dedupe_key s) items)"
    by (rule wins_member)
  then show "s \<in> set items" by (simp add: group_of_def)
qed









section \<open>Ranking and clipping\<close>

lemma sorted_reverse_mset: "mset (py_sorted_reverse key xs) = mset xs"
  by (simp add: py_sorted_reverse_def)

lemma sorted_reverse_descending:
  "sorted_wrt (\<lambda>a b. key a \<ge> key b) (py_sorted_reverse key xs)"
proof -
  have "sorted (map key (sort_key key (rev xs)))" by simp
  then have "sorted_wrt (\<lambda>a b. key a \<le> key b) (sort_key key (rev xs))"
    by (simp add: sorted_map)
  then show ?thesis by (simp add: py_sorted_reverse_def sorted_wrt_rev)
qed

lemma sorted_reverse_stable:
  "filter (\<lambda>c. key c = s) (py_sorted_reverse key xs) = filter (\<lambda>c. key c = s) xs"
  by (simp add: py_sorted_reverse_def rev_filter [symmetric] sort_key_stable)

lemma clip_positive: "0 < n \<Longrightarrow> clip items n = take (nat n) (py_sorted_reverse score items)"
  by (simp add: clip_def py_slice_to_def)

lemma length_sorted_reverse: "length (py_sorted_reverse key xs) = length xs"
  by (simp add: py_sorted_reverse_def)

lemma dedupe_distinct_keys_id:
  "distinct (map dedupe_key [a, b, c]) \<Longrightarrow> dedupe_keep_best [a, b, c] = [a, b, c]"
  by (auto simp: dedupe_keep_best_def dedupe_step_def)

text \<open>
  Claim C2. For every candidate list and every positive limit, the clipped ranking of the
  deduplicated candidates is the first \<open>limit\<close> entries of their stable descending sort:
  the sort is a permutation, descending in score, and keeps candidates of equal score in
  the order the deduplicated list has them; the length is the minimum of the limit and the
  number of deduplicated candidates; that is what the aggregator returns; and candidates
  of distinct keys with scores 1, 5 and 3 and limit 2 give the score-5 candidate and then
  the score-3 candidate.
\<close>

theorem rank_and_clip:
  "0 < limit \<longrightarrow>
     clip (dedupe_keep_best items) limit
       = take (nat limit) (py_sorted_reverse score (dedupe_keep_best items))
     \<and> mset (py_sorted_reverse score (dedupe_keep_best items)) = mset (dedupe_keep_best items)
     \<and> sorted_wrt (\<lambda>a b. score a \<ge> score b) (py_sorted_reverse score (dedupe_keep_best items))
     \<and> (\<forall>s. filter (\<lambda>c. score c = s) (py_sorted_reverse score (dedupe_keep_best items))
              = filter (\<lambda>c. score c = s) (dedupe_keep_best items))
     \<and> length (clip (dedupe_keep_best items) limit) = min (nat limit) (length (dedupe_keep_best items))
     \<and> (location_boost loc cands = Inr boosted \<longrightarrow>
          aggregate cands loc limit
            = Inr (take (nat limit) (py_sorted_reverse score (dedupe_keep_best boosted))))
     \<and> (score a = 1 \<and> score b = 5 \<and> score c = 3 \<and> distinct (map dedupe_key [a, b, c])
          \<longrightarrow> clip (dedupe_keep_best [a, b, c]) 2 = [b, c])"
proof (intro impI conjI allI)
  assume pos: "0 < limit"
  show "clip (dedupe_keep_best items) limit
       = take (nat limit) (py_sorted_reverse score (dedupe_keep_best items))"
    using pos by (rule clip_positive)
  show "mset (py_sorted_reverse score (dedupe_keep_best items)) = mset (dedupe_keep_best items)"
    by (rule sorted_reverse_mset)
  show "sorted_wrt (\<lambda>a b. score a \<ge> score b) (py_sorted_reverse score (dedupe_keep_best items))"
    by (rule sorted_reverse_descending)
  show "filter (\<lambda>c. score c = s) (py_sorted_reverse score (dedupe_keep_best items))
              = filter (\<lambda>c. score c = s) (dedupe_keep_best items)" for s
    by (rule sorted_reverse_stable)
  show "length (clip (dedupe_keep_best items) limit) = min (nat limit) (length (dedupe_keep_best items))"
    using pos by (simp add: clip_positive length_sorted_reverse min.commute)
  show "aggregate cands loc limit
            = Inr (take (nat limit) (py_sorted_reverse score (dedupe_keep_best boosted)))"
    if "location_boost loc cands = Inr boosted"
    using that pos by (simp add: aggregate_def clip_positive)
  show "clip (dedupe_keep_best [a, b, c]) 2 = [b, c]"
    if "score a = 1 \<and> score b = 5 \<and> score c = 3 \<and> distinct (map dedupe_key [a, b, c])"
  proof -
    from that have "dedupe_keep_best [a, b, c] = [a, b, c]"
      by (intro dedupe_distinct_keys_id) simp
    then show ?thesis using that by (simp add: clip_def py_slice_to_def py_sorted_reverse_def)
  qed
qed

theorem rank_and_clip_witness:
  "clip (dedupe_keep_best
      [person (Some ''https://github.com/ann'') (Some ''ann'') 1,
       person (Some ''https://github.com/bob'') (Some ''bob'') 5,
       person (Some ''https://github.com/cy'') (Some ''cy'') 3]) 2
     = [person (Some ''https://github.com/bob'') (Some ''bob'') 5,
        person (Some ''https://github.com/cy'') (Some ''cy'') 3]"
proof -
  let ?a = "person (Some ''https://github.com/ann'') (Some ''ann'') 1"
  let ?b = "person (Some ''https://github.com/bob'') (Some ''bob'') 5"
  let ?c = "person (Some ''https://github.com/cy'') (Some ''cy'') 3"
  note t = rank_and_clip [of 2 "[?a, ?b, ?c]" JNull "[]" "[]" ?a ?b ?c]
  have d: "distinct (map dedupe_key [?a, ?b, ?c])" by code_simp
  have h: "score ?a = 1 \<and> score ?b = 5 \<and> score ?c = 3" by (simp add: person_def)
  have p: "(0::int) < 2" by simp
  from t p d h show ?thesis by blast
qed


section \<open>What the handler returns\<close>

lemma py_slice_to_take: "\<exists>m. py_slice_to xs n = take m xs"
  by (auto simp: py_slice_to_def)

lemma clip_take: "\<exists>m. clip items n = take m (py_sorted_reverse score items)"
  unfolding clip_def by (rule py_slice_to_take)

lemma set_clip: "set (clip items n) \<subseteq> set items"
proof -
  obtain m where "clip items n = take m (py_sorted_reverse score items)"
    using clip_take by blast
  then have "set (clip items n) \<subseteq> set (py_sorted_reverse score items)"
    by (simp add: set_take_subset)
  also have "\<dots> = set items" by (simp add: py_sorted_reverse_def)
  finally show ?thesis .
qed


lemma aggregate_Inr:
  "aggregate cands loc limit = Inr out \<Longrightarrow>
     \<exists>boosted. location_boost loc cands = Inr boosted \<and> out = clip (dedupe_keep_best boosted) limit"
  by (auto simp: aggregate_def split: sum.splits)



lemma fan_out_contributed:
  "fan_out e terms loc n =
     (contributed e terms loc n,
      [''github'', ''stackexchange'', ''huggingface'', ''paperswithcode'', ''kaggle''])"
  by (simp add: fan_out_def try_source_def contributed_def split: sum.splits)

lemma handler_served:
  assumes "ideas_pass (obj_get payload ''ideas'')"
    and "is_list (py_or (obj_get payload ''keywords'') (JList []))"
    and "py_int e (py_or (obj_get payload ''max_results'') (JInt DEFAULT_MAX)) = Inr n"
  shows "suggest_collaborators e (Some (JObj payload)) =
     (let loc = obj_get payload ''location'';
          terms = build_terms (strings_of (items_of (obj_get payload ''ideas'')))
                    (items_of (py_or (obj_get payload ''keywords'') (JList [])))
      in (case aggregate (contributed e terms loc n) loc n of
            Inl x \<Rightarrow> Inl x
          | Inr out \<Rightarrow> Inr (HttpResponse 200 (ResultBody out terms loc)),
          [''github'', ''stackexchange'', ''huggingface'', ''paperswithcode'', ''kaggle'']))"
  using assms
  by (simp add: suggest_collaborators_def Let_def fan_out_contributed aggregate_def split: sum.splits)

lemma handler_result:
  assumes "fst (suggest_collaborators e req) = Inr (HttpResponse st (ResultBody out terms loc))"
  shows "st = 200 \<and> (\<exists>n. aggregate (contributed e terms loc n) loc n = Inr out)"
proof (cases req)
  case None
  with assms show ?thesis by (simp add: suggest_collaborators_def)
next
  case (Some j)
  show ?thesis
  proof (cases "\<exists>payload. j = JObj payload")
    case False
    with assms Some show ?thesis by (cases j) (simp_all add: suggest_collaborators_def)
  next
    case True
    then obtain payload where j: "j = JObj payload" by blast
    show ?thesis
    proof (cases "ideas_pass (obj_get payload ''ideas'')
        \<and> is_list (py_or (obj_get payload ''keywords'') (JList []))")
      case False
      with assms Some j show ?thesis
        by (auto simp: suggest_collaborators_def Let_def split: if_splits)
    next
      case ok: True
      show ?thesis
      proof (cases "py_int e (py_or (obj_get payload ''max_results'') (JInt DEFAULT_MAX))")
        case (Inl x)
        with assms Some j ok show ?thesis
          by (simp add: suggest_collaborators_def Let_def)
      next
        case (Inr n)
        from ok Inr have "suggest_collaborators e (Some (JObj payload)) =
           (let loc = obj_get payload ''location'';
                terms = build_terms (strings_of (items_of (obj_get payload ''ideas'')))
                    (items_of (py_or (obj_get payload ''keywords'') (JList [])))
            in (case aggregate (contributed e terms loc n) loc n of
                  Inl x \<Rightarrow> Inl x
                | Inr out \<Rightarrow> Inr (HttpResponse 200 (ResultBody out terms loc)),
               [''github'', ''stackexchange'', ''huggingface'', ''paperswithcode'', ''kaggle'']))"
          by (intro handler_served) simp_all
        with assms Some j show ?thesis
          by (auto simp: Let_def split: sum.splits)
      qed
    qed
  qed
qed


section \<open>Uniqueness in the final array\<close>




section \<open>The aggregation writes the score only\<close>

lemma boost_one_frame: "boost_one s r = r\<lparr>score := score (boost_one s r)\<rparr>"
  by (simp add: boost_one_def Let_def)

lemma boost_one_score: "score (boost_one s r) = score r \<or> score (boost_one s r) = score r + 1 / 2"
  by (simp add: boost_one_def Let_def)

lemma location_boost_frame:
  assumes "location_boost loc cands = Inr boosted" and "c \<in> set boosted"
  shows "\<exists>c0 \<in> set cands. c = c0\<lparr>score := score c\<rparr>
           \<and> (score c = score c0 \<or> score c = score c0 + 1 / 2)"
proof (cases "truthy loc")
  case False
  with assms have "c \<in> set cands" by (auto simp: location_boost_def)
  moreover have "c = c\<lparr>score := score c\<rparr>" by simp
  ultimately show ?thesis by blast
next
  case True
  show ?thesis
  proof (cases "\<exists>s. loc = JStr s")
    case True
    then obtain s where "loc = JStr s" by blast
    with assms \<open>truthy loc\<close> obtain c0 where "c0 \<in> set cands" and "c = boost_one s c0"
      by (auto simp: location_boost_def)
    then show ?thesis using boost_one_frame [of s c0] boost_one_score [of s c0] by auto
  next
    case False
    with assms \<open>truthy loc\<close> have "boosted = []"
      by (cases loc) (auto simp: location_boost_def split: if_splits)
    with assms show ?thesis by simp
  qed
qed

lemma aggregate_frame:
  assumes "aggregate cands loc limit = Inr out" and "c \<in> set out"
  shows "\<exists>c0 \<in> set cands. c = c0\<lparr>score := score c\<rparr>
           \<and> (score c = score c0 \<or> score c = score c0 + 1 / 2)"
proof -
  from assms(1) obtain boosted where b: "location_boost loc cands = Inr boosted"
    and o: "out = clip (dedupe_keep_best boosted) limit"
    using aggregate_Inr by blast
  from o assms(2) have "c \<in> set boosted" using set_clip dedupe_subset by blast
  with b show ?thesis by (rule location_boost_frame)
qed

lemma update_same_but_score: "c = c0\<lparr>score := x\<rparr> \<Longrightarrow> same_but_score c c0"
  by (simp add: same_but_score_def)

text \<open>
  Claim C10. Every candidate of the aggregator's output is an input candidate with at most
  its score changed, by nothing or by one half: source, name, username, profile_url,
  public_email, blog, location, company and evidence are the values of the input
  candidate. Every candidate of a response of the handler is in this way a candidate that
  an adapter contributed.
\<close>

theorem aggregation_touches_only_score:
  "(aggregate cands loc limit = Inr out \<longrightarrow>
      (\<forall>c \<in> set out. \<exists>c0 \<in> set cands. same_but_score c c0 \<and> c = c0\<lparr>score := score c\<rparr>
          \<and> (score c = score c0 \<or> score c = score c0 + 1 / 2)))
   \<and> (fst (suggest_collaborators e req) = Inr (HttpResponse st (ResultBody out' terms loc')) \<longrightarrow>
      (\<exists>n. \<forall>c \<in> set out'. \<exists>c0 \<in> set (contributed e terms loc' n).
          same_but_score c c0 \<and> c = c0\<lparr>score := score c\<rparr>))"
proof (intro conjI impI ballI)
  fix c assume "aggregate cands loc limit = Inr out" and "c \<in> set out"
  then show "\<exists>c0 \<in> set cands. same_but_score c c0 \<and> c = c0\<lparr>score := score c\<rparr>
          \<and> (score c = score c0 \<or> score c = score c0 + 1 / 2)"
    using aggregate_frame update_same_but_score by meson
next
  assume "fst (suggest_collaborators e req) = Inr (HttpResponse st (ResultBody out' terms loc'))"
  then obtain n where n: "aggregate (contributed e terms loc' n) loc' n = Inr out'"
    using handler_result by blast
  have "\<forall>c \<in> set out'. \<exists>c0 \<in> set (contributed e terms loc' n).
          same_but_score c c0 \<and> c = c0\<lparr>score := score c\<rparr>"
    using aggregate_frame [OF n] update_same_but_score by meson
  then show "\<exists>n. \<forall>c \<in> set out'. \<exists>c0 \<in> set (contributed e terms loc' n).
          same_but_score c c0 \<and> c = c0\<lparr>score := score c\<rparr>" ..
qed

theorem aggregation_touches_only_score_witness:
  "aggregate
     [(person (Some ''https://github.com/ann'') (Some ''ann'') 2)\<lparr>location := Some ''Sofia, Bulgaria''\<rparr>,
      person (Some ''https://github.com/bob'') (Some ''bob'') 1] (JStr ''bulgaria'') 1
     = Inr [(person (Some ''https://github.com/ann'') (Some ''ann'') (5 / 2))\<lparr>location := Some ''Sofia, Bulgaria''\<rparr>]
   \<and> list_all (\<lambda>c. list_ex (\<lambda>c0. same_but_score c c0 \<and> c = c0\<lparr>score := score c\<rparr>
                  \<and> (score c = score c0 \<or> score c = score c0 + 1 / 2))
         [(person (Some ''https://github.com/ann'') (Some ''ann'') 2)\<lparr>location := Some ''Sofia, Bulgaria''\<rparr>,
          person (Some ''https://github.com/bob'') (Some ''bob'') 1])
       [(person (Some ''https://github.com/ann'') (Some ''ann'') (5 / 2))\<lparr>location := Some ''Sofia, Bulgaria''\<rparr>]"
proof -
  let ?cs = "[(person (Some ''https://github.com/ann'') (Some ''ann'') 2)\<lparr>location := Some ''Sofia, Bulgaria''\<rparr>,
      person (Some ''https://github.com/bob'') (Some ''bob'') 1]"
  let ?out = "[(person (Some ''https://github.com/ann'') (Some ''ann'') (5 / 2))\<lparr>location := Some ''Sofia, Bulgaria''\<rparr>]"
  have v: "aggregate ?cs (JStr ''bulgaria'') 1 = Inr ?out" by code_simp
  from aggregation_touches_only_score [of ?cs "JStr ''bulgaria''" 1 ?out quiet_env None 200 "[]" "[]" JNull] v
  have "\<forall>c \<in> set ?out. \<exists>c0 \<in> set ?cs. same_but_score c c0 \<and> c = c0\<lparr>score := score c\<rparr>
          \<and> (score c = score c0 \<or> score c = score c0 + 1 / 2)"
    by blast
  then show ?thesis unfolding v list_all_iff list_ex_iff by blast
qed


section \<open>Validation of the ideas\<close>

lemma malformed_ideas_rejected:
  assumes "\<not> ideas_pass (obj_get payload ''ideas'')"
  shows "suggest_collaborators e (Some (JObj payload))
     = (Inr (HttpResponse 400
          (ErrorBody ([CHR 0x27] @ ''ideas'' @ [CHR 0x27] @ '' must be a non-empty list of strings''))), [])"
  using assms by (simp add: suggest_collaborators_def Let_def)

lemma ideas_pass_iff:
  "ideas_pass j \<longleftrightarrow> (\<exists>xs. j = JList xs \<and> (\<forall>x \<in> set xs. \<exists>s. x = JStr s \<and> py_strip s \<noteq> []))"
proof -
  have nb: "nonblank_str x \<longleftrightarrow> (\<exists>s. x = JStr s \<and> py_strip s \<noteq> [])" for x
    by (cases x) simp_all
  show ?thesis by (cases j) (simp_all add: list_all_iff nb)
qed

text \<open>
  Claim C3, at the request whose \<^verbatim>\<open>ideas\<close> is the empty list. The claim wants a 400 and no
  search work; the handler, whose check is \<^verbatim>\<open>all(...)\<close> over the list and so holds of the
  empty list, serves the request: it invokes the five adapters with no terms and answers
  200. Every \<^verbatim>\<open>ideas\<close> that is absent, no list, or a list with a non-string or a blank entry
  is answered 400 with no adapter invoked (\<open>malformed_ideas_rejected\<close>).
\<close>

theorem empty_ideas_list_is_served:
  "suggest_collaborators e (Some (JObj [(''ideas'', JList [])]))
     = (Inr (HttpResponse 200
          (ResultBody (clip (dedupe_keep_best (contributed e [] JNull 10)) 10) [] JNull)),
        [''github'', ''stackexchange'', ''huggingface'', ''paperswithcode'', ''kaggle''])"
proof -
  have a: "ideas_pass (obj_get [(''ideas'', JList [])] ''ideas'')" by (simp add: obj_get_def)
  have b: "is_list (py_or (obj_get [(''ideas'', JList [])] ''keywords'') (JList []))"
    by (simp add: obj_get_def py_or_def)
  have c: "py_int e (py_or (obj_get [(''ideas'', JList [])] ''max_results'') (JInt DEFAULT_MAX)) = Inr 10"
    by (simp add: obj_get_def py_or_def py_int_def DEFAULT_MAX_def)
  have t: "build_terms [] [] = []" by (simp add: build_terms_def expanded_terms_def)
  have l: "obj_get [(''ideas'', JList [])] ''location'' = JNull" by (simp add: obj_get_def)
  show ?thesis
    unfolding handler_served [OF a b c]
    by (simp add: l t obj_get_def py_or_def aggregate_def location_boost_def)
qed


section \<open>The two location bonuses\<close>

lemma py_lower_Nil_iff: "py_lower s = [] \<longleftrightarrow> s = []"
  by (simp add: py_lower_def)

lemma contains_nonempty: "py_contains (py_lower s) (py_lower l) \<Longrightarrow> s \<noteq> [] \<Longrightarrow> l \<noteq> []"
  by (cases l) (auto simp: py_lower_def)

lemma se_candidate_matching:
  assumes "req_loc \<noteq> []" and "u_location u = Some l"
    and "py_contains (py_lower req_loc) (py_lower l)"
  shows "se_candidate terms (JStr req_loc) u tags =
           Inr \<lparr>source = ''stackexchange'', name = display_name u,
                username = Some (py_str (user_id u)), profile_url = link u,
                public_email = None, blog = website_url u, location = Some l, company = None,
                evidence = JObj [(''top_tags'', JList (map JStr tags))],
                score = score_match (se_text u tags) terms + 1\<rparr>"
proof -
  from assms have "l \<noteq> []" using contains_nonempty by blast
  with assms have "se_location_match (JStr req_loc) u = Inr True"
    by (simp add: se_location_match_def or_empty_def)
  then show ?thesis using assms(2) by (simp add: se_candidate_def Let_def)
qed

lemma se_candidate_fields:
  assumes "se_candidate terms (JStr req_loc) u tags = Inr c"
  shows "location c = u_location u \<and> name c = display_name u
         \<and> score c = score_match (se_text u tags) terms
              + (if req_loc \<noteq> [] \<and> or_empty (u_location u) \<noteq> []
                    \<and> py_contains (py_lower req_loc) (py_lower (or_empty (u_location u)))
                 then 1 else 0)"
  using assms
  by (auto simp: se_candidate_def se_location_match_def Let_def split: sum.splits if_splits)

lemma boost_one_matching:
  "location c = Some l \<Longrightarrow> py_contains (py_lower req_loc) (py_lower l) \<Longrightarrow>
     boost_one req_loc c = c\<lparr>score := score c + 1 / 2\<rparr>"
  by (simp add: boost_one_def or_empty_def)

lemma location_boost_str:
  "req_loc \<noteq> [] \<Longrightarrow> location_boost (JStr req_loc) results
     = Inr (map (\<lambda>r. if py_contains (py_lower req_loc) (py_lower (or_empty (location r)))
                      then r\<lparr>score := score r + 1 / 2\<rparr> else r) results)"
  by (simp add: location_boost_def boost_one_def Let_def)

lemma se_users_loop_members:
  "se_users_loop fetch terms loc out us = Inr res \<Longrightarrow> c \<in> set res \<Longrightarrow>
     c \<in> set out \<or> (\<exists>u \<in> set us. \<exists>tags. se_candidate terms loc u tags = Inr c)"
proof (induction us arbitrary: out)
  case Nil
  then show ?case by simp
next
  case (Cons u us)
  from Cons.prems(1) obtain items c' where f: "fetch (user_id u) = Inr items"
    and k: "se_candidate terms loc u (truthy_names items) = Inr c'"
    and r: "se_users_loop fetch terms loc (out @ [c']) us = Inr res"
    by (auto split: sum.splits)
  from Cons.IH [OF r Cons.prems(2)]
  have "c \<in> set (out @ [c']) \<or> (\<exists>u \<in> set us. \<exists>tags. se_candidate terms loc u tags = Inr c)" .
  then show ?case using k by auto
qed

lemma search_stackexchange_members:
  assumes "search_stackexchange_users fetch_users fetch_top_tags terms loc n = Inr cs"
    and "c \<in> set cs"
  shows "\<exists>u tags. se_candidate terms loc u tags = Inr c"
proof -
  from assms(1) obtain users where
    "se_users_loop fetch_top_tags terms loc [] users = Inr cs"
    by (auto simp: search_stackexchange_users_def Let_def split: sum.splits)
  from se_users_loop_members [OF this assms(2)] show ?thesis by auto
qed

text \<open>
  Claim C4. For every request with a non-empty location string: a StackExchange user whose
  location contains it case-insensitively yields a candidate whose score is the textual
  score plus the adapter's 1, and the aggregation adds its one half once, which makes the
  textual score plus 1.5; the aggregation maps every candidate of the combined list,
  whatever its source, to itself with one half added exactly when its location matches,
  and to itself unchanged otherwise; and every candidate the StackExchange adapter returns
  with a matching location has these two scores.
\<close>

theorem location_boosts_stack:
  "req_loc \<noteq> [] \<longrightarrow>
     (u_location u = Some l \<and> py_contains (py_lower req_loc) (py_lower l) \<longrightarrow>
        (\<exists>c. se_candidate terms (JStr req_loc) u tags = Inr c
           \<and> location c = Some l
           \<and> score c = score_match (se_text u tags) terms + 1
           \<and> location_boost (JStr req_loc) [c]
               = Inr [c\<lparr>score := score_match (se_text u tags) terms + 3 / 2\<rparr>]))
     \<and> location_boost (JStr req_loc) results
         = Inr (map (\<lambda>r. if py_contains (py_lower req_loc) (py_lower (or_empty (location r)))
                          then r\<lparr>score := score r + 1 / 2\<rparr> else r) results)
     \<and> (search_stackexchange_users fetch_users fetch_top_tags terms (JStr req_loc) n = Inr cs \<longrightarrow>
          (\<forall>c \<in> set cs. \<forall>l'. location c = Some l' \<and> py_contains (py_lower req_loc) (py_lower l') \<longrightarrow>
             (\<exists>u' tags'. name c = display_name u'
                \<and> score c = score_match (se_text u' tags') terms + 1
                \<and> score (boost_one req_loc c) = score_match (se_text u' tags') terms + 3 / 2)))"
proof (intro impI conjI ballI allI)
  assume ne: "req_loc \<noteq> []"
  show "location_boost (JStr req_loc) results
         = Inr (map (\<lambda>r. if py_contains (py_lower req_loc) (py_lower (or_empty (location r)))
                          then r\<lparr>score := score r + 1 / 2\<rparr> else r) results)"
    using ne by (rule location_boost_str)
  show "\<exists>c. se_candidate terms (JStr req_loc) u tags = Inr c
           \<and> location c = Some l
           \<and> score c = score_match (se_text u tags) terms + 1
           \<and> location_boost (JStr req_loc) [c]
               = Inr [c\<lparr>score := score_match (se_text u tags) terms + 3 / 2\<rparr>]"
    if h: "u_location u = Some l \<and> py_contains (py_lower req_loc) (py_lower l)"
  proof -
    from h ne have "se_candidate terms (JStr req_loc) u tags =
           Inr \<lparr>source = ''stackexchange'', name = display_name u,
                username = Some (py_str (user_id u)), profile_url = link u,
                public_email = None, blog = website_url u, location = Some l, company = None,
                evidence = JObj [(''top_tags'', JList (map JStr tags))],
                score = score_match (se_text u tags) terms + 1\<rparr>"
      by (intro se_candidate_matching) simp_all
    then show ?thesis using h ne by (simp add: location_boost_str or_empty_def)
  qed
  show "\<exists>u' tags'. name c = display_name u'
                \<and> score c = score_match (se_text u' tags') terms + 1
                \<and> score (boost_one req_loc c) = score_match (se_text u' tags') terms + 3 / 2"
    if s: "search_stackexchange_users fetch_users fetch_top_tags terms (JStr req_loc) n = Inr cs"
      and c: "c \<in> set cs"
      and m: "location c = Some l' \<and> py_contains (py_lower req_loc) (py_lower l')" for c l'
  proof -
    from search_stackexchange_members [OF s c] obtain u' tags'
      where k: "se_candidate terms (JStr req_loc) u' tags' = Inr c" by blast
    note f = se_candidate_fields [OF k]
    from m f have ul: "u_location u' = Some l'" by simp
    from m ne have "l' \<noteq> []" using contains_nonempty by blast
    with f ul m ne have sc: "score c = score_match (se_text u' tags') terms + 1"
      by (simp add: or_empty_def)
    from m have "boost_one req_loc c = c\<lparr>score := score c + 1 / 2\<rparr>"
      using boost_one_matching by blast
    then have "score (boost_one req_loc c) = score_match (se_text u' tags') terms + 3 / 2"
      using sc by simp
    with sc f show ?thesis by blast
  qed
qed


theorem location_boosts_stack_witness:
  "\<exists>c. se_candidate [''python''] (JStr ''bulgaria'') sofia_user [''python''] = Inr c
      \<and> location c = Some ''Sofia, Bulgaria''
      \<and> score c = score_match (se_text sofia_user [''python'']) [''python''] + 1
      \<and> location_boost (JStr ''bulgaria'') [c]
          = Inr [c\<lparr>score := score_match (se_text sofia_user [''python'']) [''python''] + 3 / 2\<rparr>]"
proof -
  have ne: "''bulgaria'' \<noteq> []" by simp
  have h: "u_location sofia_user = Some ''Sofia, Bulgaria''
           \<and> py_contains (py_lower ''bulgaria'') (py_lower ''Sofia, Bulgaria'')"
    by code_simp
  from location_boosts_stack [of "''bulgaria''" sofia_user "''Sofia, Bulgaria''" "[''python'']" "[''python'']"
       "[]" "\<lambda>t n. Inr []" "\<lambda>i. Inr []" 1 "[]"] ne h
  show ?thesis by blast
qed


section \<open>Adapter failures\<close>

lemma valid_request_int:
  "null_or_positive j \<Longrightarrow>
     py_int e (py_or j (JInt DEFAULT_MAX)) = Inr (case j of JInt i \<Rightarrow> i | _ \<Rightarrow> DEFAULT_MAX)
     \<and> 0 < (case j of JInt i \<Rightarrow> i | _ \<Rightarrow> DEFAULT_MAX)"
  by (cases j) (simp_all add: py_or_def py_int_def DEFAULT_MAX_def)

lemma null_or_list_is_list: "null_or_list j \<Longrightarrow> is_list (py_or j (JList []))"
  by (cases j) (simp_all add: py_or_def)

lemma null_or_str_boost: "null_or_str loc \<Longrightarrow> \<exists>boosted. location_boost loc cands = Inr boosted"
  by (cases loc) (simp_all add: location_boost_def)

lemma aggregate_null_or_str:
  "null_or_str loc \<Longrightarrow> \<exists>out. aggregate cands loc n = Inr out"
  using null_or_str_boost [of loc cands] by (auto simp: aggregate_def)

lemma aggregate_nothing: "null_or_str loc \<Longrightarrow> aggregate [] loc n = Inr []"
  by (cases loc) (simp_all add: aggregate_def location_boost_def dedupe_keep_best_def clip_def
        py_slice_to_def py_sorted_reverse_def)

lemma served_response:
  assumes "ideas_pass (obj_get payload ''ideas'')"
    and "is_list (py_or (obj_get payload ''keywords'') (JList []))"
    and "py_int e (py_or (obj_get payload ''max_results'') (JInt DEFAULT_MAX)) = Inr n"
    and "aggregate (contributed e (request_terms payload) (obj_get payload ''location'') n)
           (obj_get payload ''location'') n = Inr out"
  shows "suggest_collaborators e (Some (JObj payload)) =
     (Inr (HttpResponse 200 (ResultBody out (request_terms payload) (obj_get payload ''location''))),
      all_sources)"
  using assms(4) unfolding handler_served [OF assms(1,2,3)]
  by (simp add: request_terms_def all_sources_def Let_def)

text \<open>
  Claim C8. For every valid request and whatever each of the five adapters does, return
  candidates or raise, the handler invokes all five and answers 200 with the aggregation
  of exactly the candidates of the adapters that returned; an adapter that raises
  contributes nothing and stops nothing, and when nothing is contributed the candidates
  array is empty.
\<close>

theorem adapter_failures_are_isolated:
  "valid_request payload \<longrightarrow>
     (\<exists>out. aggregate
               (contributed e (request_terms payload) (obj_get payload ''location'')
                  (requested_limit payload))
               (obj_get payload ''location'') (requested_limit payload) = Inr out
         \<and> suggest_collaborators e (Some (JObj payload))
             = (Inr (HttpResponse 200
                  (ResultBody out (request_terms payload) (obj_get payload ''location''))),
                all_sources)
         \<and> (contributed e (request_terms payload) (obj_get payload ''location'')
                  (requested_limit payload) = [] \<longrightarrow> out = []))"
proof
  assume v: "valid_request payload"
  let ?loc = "obj_get payload ''location''"
  let ?n = "requested_limit payload"
  let ?cs = "contributed e (request_terms payload) ?loc ?n"
  from v have ip: "ideas_pass (obj_get payload ''ideas'')"
    and kw: "is_list (py_or (obj_get payload ''keywords'') (JList []))"
    and ls: "null_or_str ?loc"
    and mr: "null_or_positive (obj_get payload ''max_results'')"
    by (simp_all add: valid_request_def null_or_list_is_list)
  from valid_request_int [OF mr, of e]
  have n: "py_int e (py_or (obj_get payload ''max_results'') (JInt DEFAULT_MAX)) = Inr ?n"
    by (simp add: requested_limit_def)
  from aggregate_null_or_str [OF ls] obtain out where out: "aggregate ?cs ?loc ?n = Inr out"
    by blast
  have "suggest_collaborators e (Some (JObj payload))
          = (Inr (HttpResponse 200 (ResultBody out (request_terms payload) ?loc)), all_sources)"
    using ip kw n out by (rule served_response)
  moreover have "?cs = [] \<longrightarrow> out = []"
    using out aggregate_nothing [OF ls, of ?n] by auto
  ultimately show "\<exists>out. aggregate ?cs ?loc ?n = Inr out
         \<and> suggest_collaborators e (Some (JObj payload))
             = (Inr (HttpResponse 200 (ResultBody out (request_terms payload) ?loc)), all_sources)
         \<and> (?cs = [] \<longrightarrow> out = [])"
    using out by blast
qed

theorem adapter_failures_are_isolated_witness:
  "suggest_collaborators flaky_env
      (Some (JObj [(''ideas'', JList [JStr ''graph search'']), (''max_results'', JInt 5)]))
     = (Inr (HttpResponse 200
          (ResultBody [person (Some ''https://huggingface.co/ann'') (Some ''ann'') 2]
             [''graph'', ''search''] JNull)),
        [''github'', ''stackexchange'', ''huggingface'', ''paperswithcode'', ''kaggle''])"
proof -
  let ?p = "[(''ideas'', JList [JStr ''graph search'']), (''max_results'', JInt 5)]"
  have v: "valid_request ?p" by code_simp
  have t: "request_terms ?p = [''graph'', ''search'']" by code_simp
  have l: "obj_get ?p ''location'' = JNull" by code_simp
  have n: "requested_limit ?p = 5" by code_simp
  have a: "aggregate (contributed flaky_env [''graph'', ''search''] JNull 5) JNull 5
             = Inr [person (Some ''https://huggingface.co/ann'') (Some ''ann'') 2]"
    by code_simp
  from adapter_failures_are_isolated [of ?p flaky_env] v
  show ?thesis unfolding t l n a all_sources_def by auto
qed


section \<open>The result limit\<close>

lemma length_clip_le: "0 < n \<Longrightarrow> length (clip items n) \<le> nat n"
  by (simp add: clip_positive)

lemma aggregate_length:
  "0 < n \<Longrightarrow> aggregate cands loc n = Inr out \<Longrightarrow> length out \<le> nat n"
  using aggregate_Inr length_clip_le by blast

lemma falsy_max_results:
  "\<not> truthy j \<Longrightarrow> py_int e (py_or j (JInt DEFAULT_MAX)) = Inr 10"
  by (simp add: py_or_def py_int_def DEFAULT_MAX_def)

lemma int_max_results:
  "py_int e (py_or (JInt n) (JInt DEFAULT_MAX)) = Inr (if n = 0 then 10 else n)"
  by (simp add: py_or_def py_int_def DEFAULT_MAX_def)

lemma served_with_limit:
  assumes "ideas_pass (obj_get payload ''ideas'')"
    and "null_or_list (obj_get payload ''keywords'')"
    and "null_or_str (obj_get payload ''location'')"
    and "py_int e (py_or (obj_get payload ''max_results'') (JInt DEFAULT_MAX)) = Inr n"
  shows "\<exists>out. suggest_collaborators e (Some (JObj payload))
            = (Inr (HttpResponse 200
                 (ResultBody out (request_terms payload) (obj_get payload ''location''))),
               all_sources)
          \<and> (0 < n \<longrightarrow> length out \<le> nat n)"
proof -
  let ?loc = "obj_get payload ''location''"
  from aggregate_null_or_str [OF assms(3)] obtain out
    where out: "aggregate (contributed e (request_terms payload) ?loc n) ?loc n = Inr out"
    by blast
  have "suggest_collaborators e (Some (JObj payload))
            = (Inr (HttpResponse 200 (ResultBody out (request_terms payload) ?loc)), all_sources)"
    using assms(1) null_or_list_is_list [OF assms(2)] assms(4) out by (rule served_response)
  moreover have "0 < n \<longrightarrow> length out \<le> nat n" using out aggregate_length by blast
  ultimately show ?thesis by blast
qed

text \<open>
  Claim C9 as stated fails: a \<^verbatim>\<open>max_results\<close> of -1 is no positive integer, yet the request is
  not rejected. The five adapters are invoked and the answer is 200, with the ranked list
  cut by \<^verbatim>\<open>[:-1]\<close>.
\<close>

theorem negative_max_results_counterexample:
  "suggest_collaborators shared_url_env
      (Some (JObj [(''ideas'', JList [JStr ''graph search'']), (''max_results'', JInt (- 1))]))
     = (Inr (HttpResponse 200
          (ResultBody [person (Some ''https://example.org/p'') (Some ''ann'') 2]
             [''graph'', ''search''] JNull)),
        [''github'', ''stackexchange'', ''huggingface'', ''paperswithcode'', ''kaggle''])"
  by code_simp

text \<open>
  Claim C9, amended. For every request with valid ideas, keywords and location:
  \<^verbatim>\<open>max_results\<close> is optional and defaults to 10, so that when it is absent (or otherwise
  falsy) the answer is 200 with at most 10 candidates; a positive integer \<open>n\<close> gives at most
  \<open>n\<close> candidates; and an integer \<^verbatim>\<open>max_results\<close> is never rejected, positive or not: the five
  adapters are invoked and the answer is 200.
\<close>

theorem max_results_default_and_no_validation:
  "ideas_pass (obj_get payload ''ideas'') \<and> null_or_list (obj_get payload ''keywords'')
     \<and> null_or_str (obj_get payload ''location'') \<longrightarrow>
     (\<not> truthy (obj_get payload ''max_results'') \<longrightarrow>
        (\<exists>out. suggest_collaborators e (Some (JObj payload))
            = (Inr (HttpResponse 200
                 (ResultBody out (request_terms payload) (obj_get payload ''location''))),
               all_sources)
          \<and> length out \<le> 10))
     \<and> (\<forall>n. obj_get payload ''max_results'' = JInt n \<and> 0 < n \<longrightarrow>
        (\<exists>out. suggest_collaborators e (Some (JObj payload))
            = (Inr (HttpResponse 200
                 (ResultBody out (request_terms payload) (obj_get payload ''location''))),
               all_sources)
          \<and> length out \<le> nat n))
     \<and> (\<forall>n. obj_get payload ''max_results'' = JInt n \<longrightarrow>
        (\<exists>out. suggest_collaborators e (Some (JObj payload))
            = (Inr (HttpResponse 200
                 (ResultBody out (request_terms payload) (obj_get payload ''location''))),
               all_sources)))"
proof (intro impI conjI allI)
  assume v: "ideas_pass (obj_get payload ''ideas'') \<and> null_or_list (obj_get payload ''keywords'')
     \<and> null_or_str (obj_get payload ''location'')"
  then have ip: "ideas_pass (obj_get payload ''ideas'')"
    and kw: "null_or_list (obj_get payload ''keywords'')"
    and ls: "null_or_str (obj_get payload ''location'')" by simp_all
  show "\<exists>out. suggest_collaborators e (Some (JObj payload))
            = (Inr (HttpResponse 200
                 (ResultBody out (request_terms payload) (obj_get payload ''location''))),
               all_sources)
          \<and> length out \<le> 10"
    if "\<not> truthy (obj_get payload ''max_results'')"
    using served_with_limit [OF ip kw ls falsy_max_results [OF that]] by auto
  show "\<exists>out. suggest_collaborators e (Some (JObj payload))
            = (Inr (HttpResponse 200
                 (ResultBody out (request_terms payload) (obj_get payload ''location''))),
               all_sources)
          \<and> length out \<le> nat n"
    if h: "obj_get payload ''max_results'' = JInt n \<and> 0 < n" for n
  proof -
    from h have "py_int e (py_or (obj_get payload ''max_results'') (JInt DEFAULT_MAX)) = Inr n"
      by (simp add: int_max_results)
    from served_with_limit [OF ip kw ls this] h show ?thesis by auto
  qed
  show "\<exists>out. suggest_collaborators e (Some (JObj payload))
            = (Inr (HttpResponse 200
                 (ResultBody out (request_terms payload) (obj_get payload ''location''))),
               all_sources)"
    if h: "obj_get payload ''max_results'' = JInt n" for n
  proof -
    from h have "py_int e (py_or (obj_get payload ''max_results'') (JInt DEFAULT_MAX))
                   = Inr (if n = 0 then 10 else n)"
      by (simp only: int_max_results)
    from served_with_limit [OF ip kw ls this] show ?thesis by blast
  qed
qed

theorem max_results_default_and_no_validation_witness:
  "\<exists>out. suggest_collaborators shared_url_env (Some (JObj [(''ideas'', JList [JStr ''graph search''])]))
            = (Inr (HttpResponse 200 (ResultBody out
                 (request_terms [(''ideas'', JList [JStr ''graph search''])])
                 (obj_get [(''ideas'', JList [JStr ''graph search''])] ''location''))),
               all_sources)
          \<and> length out \<le> 10"
proof -
  let ?p = "[(''ideas'', JList [JStr ''graph search''])]"
  have v: "ideas_pass (obj_get ?p ''ideas'') \<and> null_or_list (obj_get ?p ''keywords'')
     \<and> null_or_str (obj_get ?p ''location'')" by code_simp
  have f: "\<not> truthy (obj_get ?p ''max_results'')" by code_simp
  from max_results_default_and_no_validation [of ?p shared_url_env] v f
  show ?thesis by blast
qed


end
